theory Spec2Isabelle
  imports Complex_Main "HOL-Library.FSet" "HOL-Library.Log_Nat" "HOL-Library.Multiset"
    "HOL-Library.Word"
begin

section \<open>Numbers\<close>

text \<open>
  The program is JavaScript (\<^verbatim>\<open>app.js\<close>). Its numbers are IEEE-754 binary64 values. A
  finite double is modelled by the real number it denotes; a real that occurs as a p-value, an
  effect size or a threshold stands for a finite double, and a decimal literal \<open>d\<close> of the
  source is the double \<open>dbl d\<close>. Order comparisons and negation of doubles are exact. A
  product or a quotient is the exact result rounded to the nearest double, ties to even, and
  an exact result too large for a double is an infinity. The signed zero and NaN do not
  occur: no operation of the model makes a NaN from finite operands, and \<open>-0\<close> and \<open>0\<close>
  compare equal.
\<close>

datatype js_error = TypeError

datatype js_number = Num real | PosInf | NegInf

text \<open>Rounding to the nearest integer, a tie going to the even neighbour.\<close>

definition round_even :: "real \<Rightarrow> int" where
  "round_even x =
     (let f = \<lfloor>x\<rfloor>; r = x - real_of_int f
      in if r < 1/2 then f else if r > 1/2 then f + 1 else if even f then f else f + 1)"

text \<open>
  The exponent of the last place of a double near \<open>x\<close>: a double in the binade
  \<open>[2^e, 2^(e+1))\<close> is a multiple of \<open>2^(e-52)\<close>, and below \<open>2^(-1022)\<close> the doubles are the
  multiples of \<open>2^(-1074)\<close>.
\<close>

definition quantum_exp :: "real \<Rightarrow> int" where
  "quantum_exp x = max (bitlen \<lfloor>\<bar>x\<bar> * 2 ^ 1074\<rfloor> - 53) 0 - 1074"

text \<open>The nearest double of a real, with the exponent unbounded above.\<close>

definition dbl :: "real \<Rightarrow> real" where
  "dbl x = real_of_int (round_even (x / 2 powi quantum_exp x)) * 2 powi quantum_exp x"

text \<open>The double result of an operation whose exact result is \<open>x\<close>.\<close>

definition fl :: "real \<Rightarrow> js_number" where
  "fl x =
     (let y = dbl x
      in if y \<ge> 2 ^ 1024 then PosInf else if y \<le> - (2 ^ 1024) then NegInf else Num y)"

text \<open>
  \<^verbatim>\<open>(p * n) / (k + 1)\<close>, the expression of both \<^verbatim>\<open>benjaminiHochberg\<close> and
  \<^verbatim>\<open>pvalueAtFdrThreshold\<close>: the product is rounded, then the quotient. The divisor is a
  positive integer, so an infinite product stays the same infinity.
\<close>

definition js_ratio :: "real \<Rightarrow> nat \<Rightarrow> nat \<Rightarrow> js_number" where
  "js_ratio p n k =
     (case fl (p * real n) of
        Num v \<Rightarrow> fl (v / real (k + 1))
      | PosInf \<Rightarrow> PosInf
      | NegInf \<Rightarrow> NegInf)"

text \<open>\<^verbatim>\<open>Math.min(1, q)\<close>, \<^verbatim>\<open>Math.max(0, q)\<close> and \<^verbatim>\<open>q > t\<close> for a finite \<open>t\<close>.\<close>

definition math_min_1 :: "js_number \<Rightarrow> js_number" where
  "math_min_1 q = (case q of Num v \<Rightarrow> Num (min 1 v) | PosInf \<Rightarrow> Num 1 | NegInf \<Rightarrow> NegInf)"

definition math_max_0 :: "js_number \<Rightarrow> js_number" where
  "math_max_0 q = (case q of Num v \<Rightarrow> Num (max 0 v) | PosInf \<Rightarrow> PosInf | NegInf \<Rightarrow> Num 0)"

definition js_greater :: "js_number \<Rightarrow> real \<Rightarrow> bool" where
  "js_greater q t = (case q of Num v \<Rightarrow> v > t | PosInf \<Rightarrow> True | NegInf \<Rightarrow> False)"

section \<open>Benjamini-Hochberg (benjaminiHochberg, app.js lines 21-30)\<close>

text \<open>
  \<^verbatim>\<open>const indexed = pvals.map((p, i) => ({ p, i })).sort((a, b) => a.p - b.p);\<close>
  The sign of the rounded difference of two doubles is the sign of the exact difference, and
  the sort of the source is stable, as insertion of keys from the right is.
\<close>

definition indexed_pvals :: "real list \<Rightarrow> (real \<times> nat) list" where
  "indexed_pvals pvals = sort_key fst (zip pvals [0..<length pvals])"

text \<open>
  The loop \<^verbatim>\<open>for (let k = 0; k < n; k++)\<close> over \<^verbatim>\<open>indexed[k]\<close>: the list argument is
  what is left of \<^verbatim>\<open>indexed\<close> from position \<open>k\<close> on. The array \<^verbatim>\<open>fdr = new Array(n)\<close>
  starts with \<open>n\<close> holes (\<open>None\<close>); each round writes one slot.
\<close>

fun bh_fill ::
  "nat \<Rightarrow> nat \<Rightarrow> (real \<times> nat) list \<Rightarrow> js_number option list \<Rightarrow> js_number option list"
where
  "bh_fill n k [] fdr_arr = fdr_arr"
| "bh_fill n k ((p, i) # rest) fdr_arr =
     bh_fill n (k + 1) rest (fdr_arr[i := Some (math_min_1 (js_ratio p n k))])"

definition benjaminiHochberg :: "real list \<Rightarrow> js_number option list" where
  "benjaminiHochberg pvals =
     (let n = length pvals
      in bh_fill n 0 (indexed_pvals pvals) (replicate n None))"

section \<open>Seeded generator (createRng, app.js lines 33-39)\<close>

text \<open>
  The state of the generator is an integer. The nearest double of an exact integer result
  (round to nearest, ties to even, 53 significant bits) is written out on integers;
  \<open>None\<close> is an infinite result. The float that a call returns is kept as the exact
  quotient of the state by \<open>2^32 - 1\<close>: rounding it to a double is monotone and leaves 0 and
  1 in place.
\<close>

definition to_double :: "int \<Rightarrow> int option" where
  "to_double v =
     (if \<bar>v\<bar> < 2 ^ 53 then Some v
      else let e = nat (bitlen \<bar>v\<bar> - 53);
               u = 2 ^ e;
               q = \<bar>v\<bar> div u;
               r = \<bar>v\<bar> mod u;
               q' = (if 2 * r > u \<or> (2 * r = u \<and> odd q) then q + 1 else q)
           in if q' * u \<ge> 2 ^ 1024 then None else Some (sgn v * (q' * u)))"

text \<open>
  \<^verbatim>\<open>s = (s * 1664525 + 1013904223) >>> 0\<close>: a double product, a double sum, then ToUint32,
  which is the residue modulo \<open>2^32\<close> of a finite integer and 0 of an infinite value.
\<close>

definition lcg_next :: "int \<Rightarrow> int" where
  "lcg_next s =
     (case to_double (s * 1664525) of
        None \<Rightarrow> 0
      | Some m \<Rightarrow>
          (case to_double (m + 1013904223) of
             None \<Rightarrow> 0
           | Some t \<Rightarrow> t mod 2 ^ 32))"

text \<open>
  \<^verbatim>\<open>createRng(seed)\<close> returns a closure over its own variable \<^verbatim>\<open>s\<close>; the closure is
  modelled by the value of that variable. A call returns the float and the closure after the
  call. \<^verbatim>\<open>0xffffffff\<close> is \<open>2^32 - 1\<close>.
\<close>

definition createRng :: "int \<Rightarrow> int" where
  "createRng seed = seed"

definition rng :: "int \<Rightarrow> real \<times> int" where
  "rng s = (let s' = lcg_next s in (real_of_int s' / 4294967295, s'))"

text \<open>The first \<open>k\<close> floats of a generator.\<close>

fun draws :: "nat \<Rightarrow> int \<Rightarrow> real list" where
  "draws 0 s = []"
| "draws (Suc k) s = (case rng s of (v, s') \<Rightarrow> v # draws k s')"

text \<open>
  Two generators alive at once, called in any order: \<open>True\<close> is a call of the first,
  \<open>False\<close> a call of the second. The result is what each one returned, in order.
\<close>

fun interleaved :: "bool list \<Rightarrow> int \<Rightarrow> int \<Rightarrow> real list \<times> real list" where
  "interleaved [] g1 g2 = ([], [])"
| "interleaved (True # cs) g1 g2 =
     (case rng g1 of (v, g1') \<Rightarrow>
        (case interleaved cs g1' g2 of (vs, ws) \<Rightarrow> (v # vs, ws)))"
| "interleaved (False # cs) g1 g2 =
     (case rng g2 of (w, g2') \<Rightarrow>
        (case interleaved cs g1 g2' of (vs, ws) \<Rightarrow> (vs, w # ws)))"

section \<open>Observations and classification (getCategory, app.js lines 88-92)\<close>

text \<open>
  A string is the list of its UTF-16 code units. \<open>ascii\<close> writes a string of ASCII
  characters.
\<close>

type_synonym js_string = "16 word list"

definition ascii :: "string \<Rightarrow> js_string" where
  "ascii s = map of_char s"

datatype category = sig_up | sig_down | not_sig

text \<open>
  One element of \<^verbatim>\<open>state.data\<close>. The field \<^verbatim>\<open>id\<close> is \<open>id_str\<close> here; \<^verbatim>\<open>_category\<close>
  is absent until the first redraw.
\<close>

record datum =
  id_str :: js_string
  geneSymbol :: js_string
  log2FC :: real
  pval :: real
  fdr :: real
  negLog10P :: real
  category :: "category option"

definition getCategory :: "datum \<Rightarrow> real \<Rightarrow> real \<Rightarrow> category" where
  "getCategory d fcThr fdrThr =
     (if fdr d \<le> fdrThr \<and> log2FC d \<ge> fcThr then sig_up
      else if fdr d \<le> fdrThr \<and> log2FC d \<le> - fcThr then sig_down
      else not_sig)"

section \<open>Cutoff lookup (pvalueAtFdrThreshold, app.js lines 151-161)\<close>

text \<open>
  The loop over \<^verbatim>\<open>k\<close> on the sorted copy. After the loop the source reads
  \<^verbatim>\<open>sorted[m - 1].pval\<close>, which throws a TypeError on an empty array.
\<close>

function cutoff_scan :: "datum list \<Rightarrow> real \<Rightarrow> nat \<Rightarrow> js_error + real" where
  "cutoff_scan srt thr k =
     (if k < length srt then
        (if js_greater (js_ratio (pval (srt ! k)) (length srt) k) thr
         then Inr (if k = 0 then pval (srt ! 0) else pval (srt ! (k - 1)))
         else cutoff_scan srt thr (k + 1))
      else (if length srt = 0 then Inl TypeError
            else Inr (pval (srt ! (length srt - 1)))))"
  by pat_completeness auto
termination
  by (relation "measure (\<lambda>(srt, thr, k). length srt - k)") auto

declare cutoff_scan.simps [simp del]

definition pvalueAtFdrThreshold :: "datum list \<Rightarrow> real \<Rightarrow> js_error + real" where
  "pvalueAtFdrThreshold dat fdrThr = cutoff_scan (sort_key pval dat) fdrThr 0"

section \<open>Application state (app.js lines 138-149)\<close>

record zoom =
  zoom_x :: "js_number \<times> js_number"
  zoom_y :: "js_number \<times> js_number"

record app_state =
  data :: "datum list"
  fcThreshold :: real
  fdrThreshold :: real
  topN :: int
  showLabels :: bool
  pinned :: "js_string fset"
  selected :: "js_string fset"
  searchHighlightId :: "js_string option"
  pvalAtFdr :: "real option"
  zoomDomain :: "zoom option"

definition initial_state :: app_state where
  "initial_state =
     \<lparr> data = [], fcThreshold = 1, fdrThreshold = dbl 0.05, topN = 10, showLabels = True,
       pinned = {||}, selected = {||}, searchHighlightId = None, pvalAtFdr = None,
       zoomDomain = None \<rparr>"

text \<open>
  What \<^verbatim>\<open>redraw\<close> does to the state. The drawing itself is not modelled and the
  elements of the page are taken to exist. On an empty dataset nothing happens; otherwise
  \<^verbatim>\<open>drawThresholdLines\<close> stores the cutoff in \<^verbatim>\<open>pvalAtFdr\<close> and every observation gets
  its \<^verbatim>\<open>_category\<close>. The lookup cannot throw here, the dataset being non-empty (lemma
  \<open>pvalueAtFdrThreshold_nonempty\<close> below).
\<close>

definition redraw :: "app_state \<Rightarrow> app_state" where
  "redraw st =
     (if length (data st) = 0 then st
      else (case pvalueAtFdrThreshold (data st) (fdrThreshold st) of
              Inl err \<Rightarrow> st
            | Inr c \<Rightarrow>
                st\<lparr> pvalAtFdr := Some c,
                    data := map (\<lambda>d. d\<lparr> category := Some (getCategory d (fcThreshold st) (fdrThreshold st)) \<rparr>)
                              (data st) \<rparr>))"

subsection \<open>Threshold setters (updateFc, updateFdr, app.js lines 466-480)\<close>

text \<open>The argument is the number \<^verbatim>\<open>parseFloat\<close> returned for the slider's value.\<close>

definition updateFc :: "real \<Rightarrow> app_state \<Rightarrow> app_state" where
  "updateFc v st = redraw (st\<lparr> fcThreshold := v \<rparr>)"

definition updateFdr :: "real \<Rightarrow> app_state \<Rightarrow> app_state" where
  "updateFdr v st = redraw (st\<lparr> fdrThreshold := v \<rparr>)"

subsection \<open>Click on a point (app.js lines 292-298)\<close>

definition point_click :: "datum \<Rightarrow> app_state \<Rightarrow> app_state" where
  "point_click d st =
     (if fcard (selected st) > 0 then st
      else redraw (if id_str d |\<in>| pinned st
                   then st\<lparr> pinned := pinned st |-| {|id_str d|} \<rparr>
                   else st\<lparr> pinned := finsert (id_str d) (pinned st) \<rparr>))"

subsection \<open>Search (doSearch, app.js lines 496-517)\<close>

text \<open>
  \<^verbatim>\<open>String.prototype.trim\<close> removes white space and line terminators from both ends. They
  are the code units U+0009 to U+000D, U+0020, U+00A0, U+1680, U+2000 to U+200A, U+2028,
  U+2029, U+202F, U+205F, U+3000 and U+FEFF.
\<close>

definition isWhitespace :: "16 word \<Rightarrow> bool" where
  "isWhitespace c =
     ((0x0009 \<le> c \<and> c \<le> 0x000D) \<or> c = 0x0020 \<or> c = 0x00A0 \<or> c = 0x1680
      \<or> (0x2000 \<le> c \<and> c \<le> 0x200A) \<or> c = 0x2028 \<or> c = 0x2029 \<or> c = 0x202F
      \<or> c = 0x205F \<or> c = 0x3000 \<or> c = 0xFEFF)"

definition trim :: "js_string \<Rightarrow> js_string" where
  "trim s = rev (dropWhile isWhitespace (rev (dropWhile isWhitespace s)))"

text \<open>\<^verbatim>\<open>String.prototype.includes\<close>: the second string occurs in the first.\<close>

fun startsWith :: "js_string \<Rightarrow> js_string \<Rightarrow> bool" where
  "startsWith s [] = True"
| "startsWith [] (c # q) = False"
| "startsWith (a # s) (c # q) = (a = c \<and> startsWith s q)"

fun includes_str :: "js_string \<Rightarrow> js_string \<Rightarrow> bool" where
  "includes_str [] q = (q = [])"
| "includes_str (a # s) q = (startsWith (a # s) q \<or> includes_str s q)"

text \<open>
  \<^verbatim>\<open>String.prototype.toLowerCase\<close> is the case conversion of the Unicode standard, a table of
  the language and not of this program: \<^verbatim>\<open>doSearch\<close> takes it as its first argument. The
  proofs use one property of it, that only the empty string is converted to the empty
  string. \<open>asciiToLowerCase\<close> is the conversion on strings of ASCII characters.
\<close>

definition asciiToLowerCase :: "js_string \<Rightarrow> js_string" where
  "asciiToLowerCase s = map (\<lambda>c. if 0x41 \<le> c \<and> c \<le> 0x5A then c + 0x20 else c) s"

text \<open>
  The first argument of \<^verbatim>\<open>doSearch\<close> after the conversion is the value of the search box,
  \<^verbatim>\<open>searchId?.value || ""\<close>. The padding \<^verbatim>\<open>1.2\<close> is a decimal literal; the sums and
  differences are rounded.
\<close>

definition doSearch :: "(js_string \<Rightarrow> js_string) \<Rightarrow> js_string \<Rightarrow> app_state \<Rightarrow> app_state" where
  "doSearch toLowerCase raw st =
     (let q = toLowerCase (trim raw)
      in if q = [] then redraw (st\<lparr> searchHighlightId := None \<rparr>)
         else (case find (\<lambda>d. includes_str (toLowerCase (id_str d)) q) (data st) of
                 Some found \<Rightarrow>
                   redraw (st\<lparr> searchHighlightId := Some (id_str found),
                               zoomDomain := Some
                                 \<lparr> zoom_x = (fl (log2FC found - dbl 1.2), fl (log2FC found + dbl 1.2)),
                                   zoom_y = (math_max_0 (fl (negLog10P found - dbl 1.2)),
                                             fl (negLog10P found + dbl 1.2)) \<rparr> \<rparr>)
               | None \<Rightarrow>
                   redraw (st\<lparr> searchHighlightId := None, zoomDomain := None \<rparr>)))"

section \<open>The words of the specification\<close>

text \<open>
  The output of the engine read in the order of the input p-values, ascending: each output
  is paired with the p-value at the same index and the pairs are sorted by p-value.
\<close>

definition by_pvalue :: "real list \<Rightarrow> js_number option list \<Rightarrow> js_number option list" where
  "by_pvalue pvals out = map snd (sort_key fst (zip pvals out))"

text \<open>
  The p-values of a dataset in ascending order, \<open>p\<^sub>(\<^sub>1\<^sub>)\<close>, \<open>p\<^sub>(\<^sub>2\<^sub>)\<close>, ..., counted from 0
  here, and the raw ratio \<open>p\<^sub>(\<^sub>k\<^sub>) \<sqdot> n / k\<close> of the rank \<open>k + 1\<close>, computed as a program
  computes it on doubles.
\<close>

definition sorted_pvals :: "datum list \<Rightarrow> real list" where
  "sorted_pvals dat = sort (map pval dat)"

definition raw_ratio :: "datum list \<Rightarrow> nat \<Rightarrow> js_number" where
  "raw_ratio dat k = js_ratio (sorted_pvals dat ! k) (length dat) k"

section \<open>Sample inputs\<close>

text \<open>
  The numbers of the first dataset are dyadic fractions, doubles as they stand. The second
  dataset has the decimal p-values 0.01, 0.02 and 0.05 of a source text.
\<close>

definition example_data :: "datum list" where
  "example_data =
     [ \<lparr> id_str = ascii ''TP53_1'', geneSymbol = ascii ''TP53'', log2FC = 2, pval = 1/16,
         fdr = 1/16, negLog10P = 5/4, category = None \<rparr>,
       \<lparr> id_str = ascii ''BRCA1_2'', geneSymbol = ascii ''BRCA1'', log2FC = 0, pval = 1/64,
         fdr = 3/64, negLog10P = 2, category = None \<rparr>,
       \<lparr> id_str = ascii ''EGFR_3'', geneSymbol = ascii ''EGFR'', log2FC = - 3/2, pval = 1/32,
         fdr = 3/64, negLog10P = 7/4, category = None \<rparr> ]"

definition example_state :: app_state where
  "example_state =
     \<lparr> data = example_data, fcThreshold = 1, fdrThreshold = 1/16, topN = 10,
       showLabels = True,
       pinned = {|ascii ''EGFR_3''|}, selected = {|ascii ''TP53_1'', ascii ''BRCA1_2''|},
       searchHighlightId = Some (ascii ''TP53_1''), pvalAtFdr = None,
       zoomDomain = Some \<lparr> zoom_x = (Num (3/4), Num (13/4)), zoom_y = (Num (1/8), Num (5/2)) \<rparr> \<rparr>"

definition decimal_data :: "datum list" where
  "decimal_data =
     [ \<lparr> id_str = ascii ''TP53_1'', geneSymbol = ascii ''TP53'', log2FC = 2, pval = dbl 0.05,
         fdr = dbl 0.05, negLog10P = 5/4, category = None \<rparr>,
       \<lparr> id_str = ascii ''BRCA1_2'', geneSymbol = ascii ''BRCA1'', log2FC = 0, pval = dbl 0.01,
         fdr = dbl 0.03, negLog10P = 2, category = None \<rparr>,
       \<lparr> id_str = ascii ''EGFR_3'', geneSymbol = ascii ''EGFR'', log2FC = - 3/2, pval = dbl 0.02,
         fdr = dbl 0.03, negLog10P = 7/4, category = None \<rparr> ]"

section \<open>Properties of the rounding\<close>

text \<open>
  A real whose scaled magnitude \<open>\<bar>x\<bar> \<sqdot> 2^k\<close> lies between \<open>2^52\<close> and \<open>2^53\<close> is rounded on
  the grid of the multiples of \<open>2^(-k)\<close>: to the nearest one, and to the even one of two
  that are equally near.
\<close>

lemma round_even_near:
  assumes "\<bar>m - real_of_int n\<bar> < 1/2"
  shows "round_even m = n"
proof (cases "real_of_int n \<le> m")
  case True
  with assms have "\<lfloor>m\<rfloor> = n" by (intro floor_unique) auto
  with assms True show ?thesis by (simp add: round_even_def Let_def)
next
  case False
  with assms have "\<lfloor>m\<rfloor> = n - 1" by (intro floor_unique) auto
  with assms False show ?thesis by (simp add: round_even_def Let_def)
qed

lemma round_even_tie:
  assumes "m = real_of_int n + 1/2"
  shows "round_even m = (if even n then n else n + 1)"
proof -
  from assms have "\<lfloor>m\<rfloor> = n" by (intro floor_unique) auto
  with assms show ?thesis by (simp add: round_even_def Let_def)
qed

lemma quantum_exp_normal:
  assumes k: "k \<le> 1074" and lo: "2 ^ 52 \<le> \<bar>x\<bar> * 2 ^ k" and hi: "\<bar>x\<bar> * 2 ^ k < 2 ^ 53"
  shows "quantum_exp x = - int k"
proof -
  define j where "j = 1074 - k"
  have split: "(2::real) ^ 1074 = 2 ^ k * 2 ^ j"
    using k by (simp add: j_def flip: power_add)
  have X: "\<bar>x\<bar> * 2 ^ 1074 = (\<bar>x\<bar> * 2 ^ k) * 2 ^ j"
    by (simp only: split mult.assoc)
  have lo': "(2::real) ^ (52 + j) \<le> \<bar>x\<bar> * 2 ^ 1074"
    unfolding X power_add using lo by (intro mult_right_mono) auto
  have hi': "\<bar>x\<bar> * 2 ^ 1074 < (2::real) ^ (53 + j)"
    unfolding X power_add using hi by (intro mult_strict_right_mono) auto
  let ?X = "\<lfloor>\<bar>x\<bar> * 2 ^ 1074\<rfloor>"
  have "(2::int) ^ (52 + j) \<le> ?X"
    using lo' by (simp add: le_floor_iff)
  moreover have "?X < (2::int) ^ (53 + j)"
    using hi' by (simp add: floor_less_iff)
  ultimately have "bitlen ?X = 53 + int j"
    by (intro antisym) (auto simp add: bitlen_le_iff_power bitlen_ge_iff_power nat_add_distrib)
  then show ?thesis using k by (simp add: quantum_exp_def j_def)
qed

lemma powi_neg_nat: "(2::real) powi (- int k) = 1 / 2 ^ k"
  by (simp add: power_int_minus field_simps)

lemma dbl_near:
  assumes "k \<le> 1074" and "2 ^ 52 \<le> \<bar>x\<bar> * 2 ^ k" and "\<bar>x\<bar> * 2 ^ k < 2 ^ 53"
    and "\<bar>x * 2 ^ k - real_of_int n\<bar> < 1/2"
  shows "dbl x = real_of_int n / 2 ^ k"
proof -
  have q: "quantum_exp x = - int k" using assms(1-3) by (rule quantum_exp_normal)
  have "round_even (x * 2 ^ k) = n" using assms(4) by (rule round_even_near)
  then show ?thesis by (simp add: dbl_def q powi_neg_nat)
qed

lemma dbl_tie:
  assumes "k \<le> 1074" and "2 ^ 52 \<le> \<bar>x\<bar> * 2 ^ k" and "\<bar>x\<bar> * 2 ^ k < 2 ^ 53"
    and "x * 2 ^ k = real_of_int n + 1/2"
  shows "dbl x = real_of_int (if even n then n else n + 1) / 2 ^ k"
proof -
  have q: "quantum_exp x = - int k" using assms(1-3) by (rule quantum_exp_normal)
  have "round_even (x * 2 ^ k) = (if even n then n else n + 1)" using assms(4) by (rule round_even_tie)
  then show ?thesis by (simp add: dbl_def q powi_neg_nat)
qed

lemma fl_finite: "\<bar>dbl x\<bar> < 2 ^ 1024 \<Longrightarrow> fl x = Num (dbl x)"
  by (auto simp add: fl_def Let_def)

lemma js_ratio_eval:
  assumes "dbl (p * real n) = a" and "\<bar>a\<bar> < 2 ^ 1024"
    and "dbl (a / real (k + 1)) = b" and "\<bar>b\<bar> < 2 ^ 1024"
  shows "js_ratio p n k = Num b"
  using assms by (simp add: js_ratio_def fl_finite)

text \<open>The doubles of the decimal literals 0.01 to 0.05.\<close>

lemma dbl_0_01: "dbl 0.01 = (5764607523034235 / 2 ^ 59)"
  using dbl_near [of 59 "0.01" 5764607523034235] by simp

lemma dbl_0_02: "dbl 0.02 = (5764607523034235 / 2 ^ 58)"
  using dbl_near [of 58 "0.02" 5764607523034235] by simp

lemma dbl_0_03: "dbl 0.03 = (1080863910568919 / 2 ^ 55)"
  using dbl_near [of 58 "0.03" 8646911284551352] by simp


lemma dbl_0_05: "dbl 0.05 = (3602879701896397 / 2 ^ 56)"
  using dbl_near [of 57 "0.05" 7205759403792794] by simp

text \<open>The ratios that the sample inputs need, each with its two roundings.\<close>

lemma ratio_quarter_2_0: "js_ratio (1 / 4) 2 0 = Num (1 / 2)"
proof -
  have prod: "dbl ((1 / 4) * real (2::nat)) = (1 / 2)"
    using dbl_near [of 53 "(1 / 4) * real (2::nat)" 4503599627370496] by simp
  have quot: "dbl ((1 / 2) / real ((0::nat) + 1)) = (1 / 2)"
    using dbl_near [of 53 "(1 / 2) / real ((0::nat) + 1)" 4503599627370496] by simp
  show ?thesis by (rule js_ratio_eval [OF prod _ quot]) simp_all
qed

lemma ratio_3_8_2_1: "js_ratio (3 / 8) 2 1 = Num (3 / 8)"
proof -
  have prod: "dbl ((3 / 8) * real (2::nat)) = (3 / 4)"
    using dbl_near [of 53 "(3 / 8) * real (2::nat)" 6755399441055744] by simp
  have quot: "dbl ((3 / 4) / real ((1::nat) + 1)) = (3 / 8)"
    using dbl_near [of 54 "(3 / 4) / real ((1::nat) + 1)" 6755399441055744] by simp
  show ?thesis by (rule js_ratio_eval [OF prod _ quot]) simp_all
qed

lemma ratio_quarter_2_1: "js_ratio (1 / 4) 2 1 = Num (1 / 4)"
proof -
  have prod: "dbl ((1 / 4) * real (2::nat)) = (1 / 2)"
    using dbl_near [of 53 "(1 / 4) * real (2::nat)" 4503599627370496] by simp
  have quot: "dbl ((1 / 2) / real ((1::nat) + 1)) = (1 / 4)"
    using dbl_near [of 54 "(1 / 2) / real ((1::nat) + 1)" 4503599627370496] by simp
  show ?thesis by (rule js_ratio_eval [OF prod _ quot]) simp_all
qed

lemma ratio_64_3_0: "js_ratio (1 / 64) 3 0 = Num (3 / 64)"
proof -
  have prod: "dbl ((1 / 64) * real (3::nat)) = (3 / 64)"
    using dbl_near [of 57 "(1 / 64) * real (3::nat)" 6755399441055744] by simp
  have quot: "dbl ((3 / 64) / real ((0::nat) + 1)) = (3 / 64)"
    using dbl_near [of 57 "(3 / 64) / real ((0::nat) + 1)" 6755399441055744] by simp
  show ?thesis by (rule js_ratio_eval [OF prod _ quot]) simp_all
qed

lemma ratio_32_3_1: "js_ratio (1 / 32) 3 1 = Num (3 / 64)"
proof -
  have prod: "dbl ((1 / 32) * real (3::nat)) = (3 / 32)"
    using dbl_near [of 56 "(1 / 32) * real (3::nat)" 6755399441055744] by simp
  have quot: "dbl ((3 / 32) / real ((1::nat) + 1)) = (3 / 64)"
    using dbl_near [of 57 "(3 / 32) / real ((1::nat) + 1)" 6755399441055744] by simp
  show ?thesis by (rule js_ratio_eval [OF prod _ quot]) simp_all
qed

lemma ratio_16_3_2: "js_ratio (1 / 16) 3 2 = Num (1 / 16)"
proof -
  have prod: "dbl ((1 / 16) * real (3::nat)) = (3 / 16)"
    using dbl_near [of 55 "(1 / 16) * real (3::nat)" 6755399441055744] by simp
  have quot: "dbl ((3 / 16) / real ((2::nat) + 1)) = (1 / 16)"
    using dbl_near [of 56 "(3 / 16) / real ((2::nat) + 1)" 4503599627370496] by simp
  show ?thesis by (rule js_ratio_eval [OF prod _ quot]) simp_all
qed






lemma ratio_dec1_3_0: "js_ratio (5764607523034235 / 2 ^ 59) 3 0 = Num (1080863910568919 / 2 ^ 55)"
proof -
  have prod: "dbl ((5764607523034235 / 2 ^ 59) * real (3::nat)) = (1080863910568919 / 2 ^ 55)"
    using dbl_tie [of 58 "(5764607523034235 / 2 ^ 59) * real (3::nat)" 8646911284551352] by simp
  have quot: "dbl ((1080863910568919 / 2 ^ 55) / real ((0::nat) + 1)) = (1080863910568919 / 2 ^ 55)"
    using dbl_near [of 58 "(1080863910568919 / 2 ^ 55) / real ((0::nat) + 1)" 8646911284551352] by simp
  show ?thesis by (rule js_ratio_eval [OF prod _ quot]) simp_all
qed

lemma ratio_dec2_3_1: "js_ratio (5764607523034235 / 2 ^ 58) 3 1 = Num (1080863910568919 / 2 ^ 55)"
proof -
  have prod: "dbl ((5764607523034235 / 2 ^ 58) * real (3::nat)) = (1080863910568919 / 2 ^ 54)"
    using dbl_tie [of 57 "(5764607523034235 / 2 ^ 58) * real (3::nat)" 8646911284551352] by simp
  have quot: "dbl ((1080863910568919 / 2 ^ 54) / real ((1::nat) + 1)) = (1080863910568919 / 2 ^ 55)"
    using dbl_near [of 58 "(1080863910568919 / 2 ^ 54) / real ((1::nat) + 1)" 8646911284551352] by simp
  show ?thesis by (rule js_ratio_eval [OF prod _ quot]) simp_all
qed

lemma ratio_dec5_3_2: "js_ratio (3602879701896397 / 2 ^ 56) 3 2 = Num (7205759403792795 / 2 ^ 57)"
proof -
  have prod: "dbl ((3602879701896397 / 2 ^ 56) * real (3::nat)) = (1351079888211149 / 2 ^ 53)"
    using dbl_tie [of 55 "(3602879701896397 / 2 ^ 56) * real (3::nat)" 5404319552844595] by simp
  have quot: "dbl ((1351079888211149 / 2 ^ 53) / real ((2::nat) + 1)) = (7205759403792795 / 2 ^ 57)"
    using dbl_near [of 57 "(1351079888211149 / 2 ^ 53) / real ((2::nat) + 1)" 7205759403792795] by simp
  show ?thesis by (rule js_ratio_eval [OF prod _ quot]) simp_all
qed

section \<open>Properties of the Benjamini-Hochberg engine\<close>

lemma bh_fill_length: "length (bh_fill n k ixs arr) = length arr"
  by (induction n k ixs arr rule: bh_fill.induct) simp_all

lemma benjaminiHochberg_length: "length (benjaminiHochberg pvals) = length pvals"
  by (simp add: benjaminiHochberg_def Let_def bh_fill_length)

text \<open>Every slot of the array is written: the result has no hole.\<close>

lemma bh_fill_writes:
  "i < length arr \<Longrightarrow> i \<in> snd ` set ixs \<or> arr ! i \<noteq> None \<Longrightarrow> bh_fill n k ixs arr ! i \<noteq> None"
proof (induction ixs arbitrary: arr k)
  case Nil
  then show ?case by simp
next
  case (Cons pi rest)
  obtain p j where pi: "pi = (p, j)" by (cases pi)
  let ?arr = "arr[j := Some (math_min_1 (js_ratio p n k))]"
  have "i < length ?arr" using Cons.prems(1) by simp
  moreover have "i \<in> snd ` set rest \<or> ?arr ! i \<noteq> None"
  proof (cases "i = j")
    case True
    then show ?thesis using Cons.prems(1) by simp
  next
    case False
    then show ?thesis using Cons.prems(2) pi by auto
  qed
  ultimately have "bh_fill n (k + 1) rest ?arr ! i \<noteq> None" by (rule Cons.IH)
  then show ?case by (simp add: pi)
qed

lemma benjaminiHochberg_filled:
  assumes "i < length pvals"
  shows "benjaminiHochberg pvals ! i \<noteq> None"
proof -
  have "(pvals ! i, i) \<in> set (zip pvals [0..<length pvals])"
    using assms by (auto simp add: in_set_zip)
  then have "i \<in> snd ` set (indexed_pvals pvals)"
    by (force simp add: indexed_pvals_def)
  then show ?thesis
    using assms by (simp add: benjaminiHochberg_def Let_def bh_fill_writes)
qed

text \<open>The engine on the sample inputs, before the ratios are evaluated.\<close>

lemma benjaminiHochberg_steps_increasing:
  "benjaminiHochberg [1/4, 3/8]
     = [Some (math_min_1 (js_ratio (1 / 4) 2 0)), Some (math_min_1 (js_ratio (3 / 8) 2 1))]"
  by (simp add: benjaminiHochberg_def indexed_pvals_def upt_rec eval_nat_numeral)

lemma benjaminiHochberg_steps_equal:
  "benjaminiHochberg [1/4, 1/4]
     = [Some (math_min_1 (js_ratio (1 / 4) 2 0)), Some (math_min_1 (js_ratio (1 / 4) 2 1))]"
  by (simp add: benjaminiHochberg_def indexed_pvals_def upt_rec eval_nat_numeral)





text \<open>
  C1. The claim is that the output, read in ascending order of the input p-values, never
  decreases. The source has no backward minimum sweep: for the p-values 1/4 and 3/8 it
  returns 1/2 and 3/8, so the output decreases where the p-values increase.
\<close>

theorem benjaminiHochberg_not_monotone:
  "benjaminiHochberg [1/4, 3/8] = [Some (Num (1/2)), Some (Num (3/8))]
   \<and> by_pvalue [1/4, 3/8] (benjaminiHochberg [1/4, 3/8]) = [Some (Num (1/2)), Some (Num (3/8))]
   \<and> (1/4 :: real) < 3/8 \<and> \<not> (1/2 :: real) \<le> 3/8"
  unfolding benjaminiHochberg_steps_increasing ratio_quarter_2_0 ratio_3_8_2_1
  by (simp add: math_min_1_def by_pvalue_def)

text \<open>
  C2. The claim is that equal p-values \<open>p\<close> all get the adjusted value \<open>min 1 p\<close>. In the
  source the rank \<open>k\<close> gets \<open>min 1 (p \<sqdot> n / k)\<close>, and nothing lowers it afterwards: two
  p-values 1/4 get 1/2 and 1/4.
\<close>

theorem benjaminiHochberg_equal_pvalues:
  "benjaminiHochberg [1/4, 1/4] = [Some (Num (1/2)), Some (Num (1/4))]
   \<and> Some (Num (min 1 (1/4 :: real))) \<noteq> benjaminiHochberg [1/4, 1/4] ! 0"
  unfolding benjaminiHochberg_steps_equal ratio_quarter_2_0 ratio_quarter_2_1
  by (simp add: math_min_1_def)

section \<open>Properties of the generator\<close>

lemma lcg_next_range: "0 \<le> lcg_next s \<and> lcg_next s \<le> 4294967295"
proof -
  have "0 \<le> t mod 2 ^ 32 \<and> t mod 2 ^ 32 \<le> 4294967295" for t :: int
  proof -
    have "t mod 2 ^ 32 < 2 ^ 32" by (rule pos_mod_bound) simp
    moreover have "0 \<le> t mod 2 ^ 32" by (rule pos_mod_sign) simp
    ultimately show ?thesis by simp
  qed
  then show ?thesis
    by (simp add: lcg_next_def split: option.split)
qed

lemma rng_range: "0 \<le> fst (rng s) \<and> fst (rng s) \<le> 1"
  using lcg_next_range [of s] by (simp add: rng_def Let_def)

lemma rng_one_iff: "fst (rng s) = 1 \<longleftrightarrow> lcg_next s = 4294967295"
  by (simp add: rng_def Let_def)

lemma draws_range: "\<forall>v \<in> set (draws k s). 0 \<le> v \<and> v \<le> 1"
proof (induction k arbitrary: s)
  case 0
  show ?case by simp
next
  case (Suc k)
  obtain v s' where r: "rng s = (v, s')" by (cases "rng s")
  with rng_range [of s] have "0 \<le> v \<and> v \<le> 1" by simp
  with Suc [of s'] r show ?case by simp
qed

lemma draws_one: "draws 1 s = [fst (rng s)]"
  by (cases "rng s") simp

lemma draws_length: "length (draws k s) = k"
  by (induction k arbitrary: s) (simp_all split: prod.split)

text \<open>The stream is the recurrence iterated from the seed, each state divided by \<open>2^32 - 1\<close>.\<close>

lemma draws_closed_form:
  "draws k s = map (\<lambda>i. real_of_int ((lcg_next ^^ (i + 1)) s) / 4294967295) [0..<k]"
proof (induction k arbitrary: s)
  case 0
  show ?case by simp
next
  case (Suc k)
  have "map (\<lambda>i. real_of_int ((lcg_next ^^ (i + 1)) s) / 4294967295) [0..<Suc k]
        = real_of_int (lcg_next s) / 4294967295
          # map (\<lambda>i. real_of_int ((lcg_next ^^ (i + 1)) (lcg_next s)) / 4294967295) [0..<k]"
    by (simp add: upt_conv_Cons map_Suc_upt [symmetric] funpow_swap1 del: upt_Suc)
  then show ?case using Suc [of "lcg_next s"] by (simp add: rng_def Let_def)
qed

text \<open>A call of one generator does not touch the other.\<close>

lemma interleaved_draws:
  "interleaved cs g1 g2 = (draws (length (filter id cs)) g1, draws (length (filter Not cs)) g2)"
proof (induction cs arbitrary: g1 g2)
  case Nil
  show ?case by simp
next
  case (Cons c cs)
  show ?case
  proof (cases c)
    case True
    then show ?thesis using Cons by (simp split: prod.split)
  next
    case False
    then show ?thesis using Cons by (simp split: prod.split)
  qed
qed

text \<open>
  C6, as amended. Every float of the generator lies in the closed interval from 0 to 1. The
  claim has the half-open interval; the divisor \<^verbatim>\<open>0xffffffff\<close> is the largest state, so the
  state \<open>2^32 - 1\<close> gives exactly 1.
\<close>

theorem draws_unit_interval:
  "v \<in> set (draws k (createRng seed)) \<Longrightarrow> 0 \<le> v \<and> v \<le> 1"
  using draws_range [of k "createRng seed"] by blast

theorem draws_unit_interval_witness:
  "fst (rng (createRng 653637408)) \<in> set (draws 1 (createRng 653637408))
   \<and> 0 \<le> fst (rng (createRng 653637408)) \<and> fst (rng (createRng 653637408)) \<le> 1"
proof -
  have mem: "fst (rng (createRng 653637408)) \<in> set (draws 1 (createRng 653637408))"
    unfolding draws_one by simp
  from draws_unit_interval [OF mem] mem show ?thesis by blast
qed

text \<open>
  C6 as stated fails: the seed 653637408 has \<open>653637408 \<sqdot> 1664525 + 1013904223 \<equiv> 2^32 - 1\<close>
  modulo \<open>2^32\<close>, and the first float of its generator is 1.
\<close>

theorem rng_reaches_one:
  "draws 1 (createRng 653637408) = [1] \<and> \<not> fst (rng (createRng 653637408)) < 1"
  by (simp add: rng_def createRng_def lcg_next_def to_double_def Let_def)

text \<open>
  C9. Two generators made from the same seed return the same floats, however their calls are
  interleaved: after \<open>k\<close> calls of each, both have returned the \<open>k\<close> floats that the seed
  alone determines.
\<close>

theorem createRng_deterministic:
  assumes "length (filter id cs) = k" and "length (filter Not cs) = k"
  shows "fst (interleaved cs (createRng seed) (createRng seed))
           = snd (interleaved cs (createRng seed) (createRng seed))
       \<and> fst (interleaved cs (createRng seed) (createRng seed)) = draws k (createRng seed)
       \<and> length (draws k (createRng seed)) = k"
  using assms by (simp add: interleaved_draws draws_length)

theorem createRng_deterministic_witness:
  "length (filter id [True, False, False, True]) = 2
   \<and> length (filter Not [True, False, False, True]) = 2
   \<and> fst (interleaved [True, False, False, True] (createRng 42) (createRng 42))
       = snd (interleaved [True, False, False, True] (createRng 42) (createRng 42))
   \<and> fst (interleaved [True, False, False, True] (createRng 42) (createRng 42))
       = draws 2 (createRng 42)"
proof -
  have calls1: "length (filter id [True, False, False, True]) = 2" by simp
  have calls2: "length (filter Not [True, False, False, True]) = 2" by simp
  from createRng_deterministic [OF calls1 calls2, of 42] calls1 calls2
  show ?thesis by blast
qed

section \<open>Properties of the classification\<close>

text \<open>
  C4, as amended. \<^verbatim>\<open>getCategory\<close> returns \<^verbatim>\<open>sig_down\<close> exactly when the FDR is at most the
  FDR threshold, the effect size is at most the negated threshold, and the effect size is
  not at least the threshold: the test for \<^verbatim>\<open>sig_up\<close> comes first and wins where both hold.
\<close>

theorem getCategory_sig_down_iff:
  "getCategory d fcThr fdrThr = sig_down
     \<longleftrightarrow> fdr d \<le> fdrThr \<and> log2FC d \<le> - fcThr \<and> \<not> log2FC d \<ge> fcThr"
  by (auto simp add: getCategory_def)

theorem getCategory_sig_down_iff_witness:
  "fdr (example_data ! 2) \<le> dbl 0.05 \<and> log2FC (example_data ! 2) \<le> - 1
   \<and> \<not> log2FC (example_data ! 2) \<ge> 1
   \<and> getCategory (example_data ! 2) 1 (dbl 0.05) = sig_down"
proof -
  have hyp: "fdr (example_data ! 2) \<le> dbl 0.05 \<and> log2FC (example_data ! 2) \<le> - 1
             \<and> \<not> log2FC (example_data ! 2) \<ge> 1"
    unfolding dbl_0_05 by (simp add: example_data_def)
  with getCategory_sig_down_iff [of "example_data ! 2" 1 "dbl 0.05"] show ?thesis by blast
qed

text \<open>
  C4 as stated fails where both tests hold: with the threshold 0 an observation of effect
  size 0 and FDR 3/64 satisfies the condition of the claim and is classified \<^verbatim>\<open>sig_up\<close>.
\<close>

theorem getCategory_sig_down_counterexample:
  "fdr (example_data ! 1) \<le> dbl 0.05 \<and> log2FC (example_data ! 1) \<le> - 0
   \<and> getCategory (example_data ! 1) 0 (dbl 0.05) = sig_up
   \<and> getCategory (example_data ! 1) 0 (dbl 0.05) \<noteq> sig_down"
  unfolding dbl_0_05 by (simp add: getCategory_def example_data_def)

section \<open>Properties of the cutoff lookup\<close>

lemma cutoff_scan_first_exceeding:
  assumes "k \<le> k0" and "k0 < length srt"
    and "js_greater (js_ratio (pval (srt ! k0)) (length srt) k0) thr"
    and "\<forall>j. k \<le> j \<and> j < k0 \<longrightarrow> \<not> js_greater (js_ratio (pval (srt ! j)) (length srt) j) thr"
  shows "cutoff_scan srt thr k = Inr (if k0 = 0 then pval (srt ! 0) else pval (srt ! (k0 - 1)))"
  using assms
proof (induction "k0 - k" arbitrary: k)
  case 0
  then have "k = k0" by simp
  with 0 show ?case by (subst cutoff_scan.simps) simp
next
  case (Suc n)
  then have lt: "k < k0" by simp
  with Suc.prems have nex: "\<not> js_greater (js_ratio (pval (srt ! k)) (length srt) k) thr"
    by simp
  have "cutoff_scan srt thr (k + 1) = Inr (if k0 = 0 then pval (srt ! 0) else pval (srt ! (k0 - 1)))"
  proof (rule Suc.hyps(1))
    show "n = k0 - (k + 1)" using Suc.hyps(2) by simp
    show "k + 1 \<le> k0" using lt by simp
    show "k0 < length srt" by (rule Suc.prems(2))
    show "js_greater (js_ratio (pval (srt ! k0)) (length srt) k0) thr" by (rule Suc.prems(3))
    show "\<forall>j. k + 1 \<le> j \<and> j < k0 \<longrightarrow> \<not> js_greater (js_ratio (pval (srt ! j)) (length srt) j) thr"
      using Suc.prems(4) by simp
  qed
  moreover have "k < length srt" using lt Suc.prems(2) by simp
  ultimately show ?case using nex by (subst cutoff_scan.simps) simp
qed

lemma cutoff_scan_none_exceeding:
  assumes "k \<le> length srt" and "srt \<noteq> []"
    and "\<forall>j. k \<le> j \<and> j < length srt \<longrightarrow> \<not> js_greater (js_ratio (pval (srt ! j)) (length srt) j) thr"
  shows "cutoff_scan srt thr k = Inr (pval (srt ! (length srt - 1)))"
  using assms
proof (induction "length srt - k" arbitrary: k)
  case 0
  then have "k = length srt" by simp
  with 0 show ?case by (subst cutoff_scan.simps) simp
next
  case (Suc n)
  then have lt: "k < length srt" by simp
  with Suc.prems have nex: "\<not> js_greater (js_ratio (pval (srt ! k)) (length srt) k) thr"
    by simp
  have "cutoff_scan srt thr (k + 1) = Inr (pval (srt ! (length srt - 1)))"
  proof (rule Suc.hyps(1))
    show "n = length srt - (k + 1)" using Suc.hyps(2) by simp
    show "k + 1 \<le> length srt" using lt by simp
    show "srt \<noteq> []" by (rule Suc.prems(2))
    show "\<forall>j. k + 1 \<le> j \<and> j < length srt \<longrightarrow> \<not> js_greater (js_ratio (pval (srt ! j)) (length srt) j) thr"
      using Suc.prems(3) by simp
  qed
  then show ?case using nex lt by (subst cutoff_scan.simps) simp
qed

lemma cutoff_scan_empty: "cutoff_scan [] thr k = Inl TypeError"
  by (subst cutoff_scan.simps) simp

lemma pvalueAtFdrThreshold_empty: "pvalueAtFdrThreshold [] thr = Inl TypeError"
  by (simp add: pvalueAtFdrThreshold_def cutoff_scan_empty)

text \<open>The p-values of the sorted copy of the source are the p-values in ascending order.\<close>

lemma sorted_pvals_code: "sorted_pvals dat = map pval (sort_key pval dat)"
  unfolding sorted_pvals_def
  by (rule properties_for_sort) simp_all

lemma sorted_pvals_length: "length (sorted_pvals dat) = length dat"
  by (simp add: sorted_pvals_def)

lemma sorted_pvals_sorted: "sorted (sorted_pvals dat)"
  by (simp add: sorted_pvals_def)

lemma sorted_pvals_set: "set (sorted_pvals dat) = pval ` set dat"
  by (simp add: sorted_pvals_def)

lemma sorted_pvals_nth: "k < length dat \<Longrightarrow> sorted_pvals dat ! k = pval (sort_key pval dat ! k)"
  by (simp add: sorted_pvals_code)

lemma sorted_first_Min:
  fixes xs :: "real list"
  assumes "sorted xs" and "xs \<noteq> []"
  shows "xs ! 0 = Min (set xs)"
proof -
  have "Min (set xs) = xs ! 0"
  proof (rule Min_eqI)
    show "finite (set xs)" by simp
    show "xs ! 0 \<in> set xs" using assms(2) by simp
    fix y assume "y \<in> set xs"
    then obtain i where "i < length xs" "y = xs ! i" by (auto simp: in_set_conv_nth)
    then show "xs ! 0 \<le> y" using assms(1) by (simp add: sorted_nth_mono)
  qed
  then show ?thesis by simp
qed

lemma sorted_last_Max_nth:
  fixes xs :: "real list"
  assumes "sorted xs" and "xs \<noteq> []"
  shows "xs ! (length xs - 1) = Max (set xs)"
proof -
  have "Max (set xs) = xs ! (length xs - 1)"
  proof (rule Max_eqI)
    show "finite (set xs)" by simp
    show "xs ! (length xs - 1) \<in> set xs" using assms(2) by simp
    fix y assume "y \<in> set xs"
    then obtain i where "i < length xs" "y = xs ! i" by (auto simp: in_set_conv_nth)
    then show "y \<le> xs ! (length xs - 1)" using assms(1) by (simp add: sorted_nth_mono)
  qed
  then show ?thesis by simp
qed

lemma sorted_pvals_first: "dat \<noteq> [] \<Longrightarrow> sorted_pvals dat ! 0 = Min (pval ` set dat)"
  using sorted_first_Min [of "sorted_pvals dat"] sorted_pvals_sorted [of dat]
    sorted_pvals_length [of dat] sorted_pvals_set [of dat]
  by (metis length_0_conv)

lemma sorted_pvals_last: "dat \<noteq> [] \<Longrightarrow> sorted_pvals dat ! (length dat - 1) = Max (pval ` set dat)"
  using sorted_last_Max_nth [of "sorted_pvals dat"] sorted_pvals_sorted [of dat]
    sorted_pvals_length [of dat] sorted_pvals_set [of dat]
  by (metis length_0_conv)

text \<open>
  C5. On a non-empty dataset the lookup scans the p-values in ascending order with the raw
  ratio \<open>p\<^sub>(\<^sub>k\<^sub>) \<sqdot> n / k\<close>, a double as the source computes it. If the first rank already exceeds the threshold, it returns the
  smallest p-value; if a later rank is the first to exceed it, it returns the p-value of the
  rank before; if no rank exceeds it, it returns the largest p-value. It does not throw.
\<close>

theorem pvalueAtFdrThreshold_scan:
  assumes "dat \<noteq> []"
  shows "(js_greater (raw_ratio dat 0) thr \<longrightarrow>
            pvalueAtFdrThreshold dat thr = Inr (Min (pval ` set dat)))
       \<and> (\<forall>k. 0 < k \<and> k < length dat \<and> js_greater (raw_ratio dat k) thr
                \<and> (\<forall>j<k. \<not> js_greater (raw_ratio dat j) thr) \<longrightarrow>
            pvalueAtFdrThreshold dat thr = Inr (sorted_pvals dat ! (k - 1)))
       \<and> ((\<forall>k<length dat. \<not> js_greater (raw_ratio dat k) thr) \<longrightarrow>
            pvalueAtFdrThreshold dat thr = Inr (Max (pval ` set dat)))"
proof -
  let ?srt = "sort_key pval dat"
  have len: "length ?srt = length dat" by simp
  have ne: "?srt \<noteq> []" using assms len by (metis length_0_conv)
  have ratio: "raw_ratio dat j = js_ratio (pval (?srt ! j)) (length ?srt) j"
    if "j < length dat" for j
    using that by (simp add: raw_ratio_def sorted_pvals_nth)
  have first: "pvalueAtFdrThreshold dat thr = Inr (Min (pval ` set dat))"
    if "js_greater (raw_ratio dat 0) thr"
  proof -
    have pos: "0 < length dat" using assms by simp
    with that ratio [of 0] have "js_greater (js_ratio (pval (?srt ! 0)) (length ?srt) 0) thr"
      by simp
    then have "cutoff_scan ?srt thr 0 = Inr (pval (?srt ! 0))"
      using cutoff_scan_first_exceeding [of 0 0 ?srt thr] pos by simp
    then show ?thesis
      using sorted_pvals_first [OF assms] sorted_pvals_nth [of 0 dat] pos
      by (simp add: pvalueAtFdrThreshold_def)
  qed
  have later: "pvalueAtFdrThreshold dat thr = Inr (sorted_pvals dat ! (k - 1))"
    if "0 < k" "k < length dat" "js_greater (raw_ratio dat k) thr" "\<forall>j<k. \<not> js_greater (raw_ratio dat j) thr" for k
  proof -
    have "js_greater (js_ratio (pval (?srt ! k)) (length ?srt) k) thr"
      using that(2,3) ratio [of k] by simp
    moreover have "\<forall>j. 0 \<le> j \<and> j < k \<longrightarrow> \<not> js_greater (js_ratio (pval (?srt ! j)) (length ?srt) j) thr"
      using that(2,4) ratio by simp
    ultimately have "cutoff_scan ?srt thr 0 = Inr (pval (?srt ! (k - 1)))"
      using cutoff_scan_first_exceeding [of 0 k ?srt thr] that(1,2) by simp
    then show ?thesis
      using sorted_pvals_nth [of "k - 1" dat] that(2)
      by (simp add: pvalueAtFdrThreshold_def)
  qed
  have none: "pvalueAtFdrThreshold dat thr = Inr (Max (pval ` set dat))"
    if "\<forall>k<length dat. \<not> js_greater (raw_ratio dat k) thr"
  proof -
    have "\<forall>j. 0 \<le> j \<and> j < length ?srt \<longrightarrow> \<not> js_greater (js_ratio (pval (?srt ! j)) (length ?srt) j) thr"
      using that ratio by simp
    then have "cutoff_scan ?srt thr 0 = Inr (pval (?srt ! (length ?srt - 1)))"
      using cutoff_scan_none_exceeding [of 0 ?srt thr] ne by simp
    then show ?thesis
      using sorted_pvals_last [OF assms] sorted_pvals_nth [of "length dat - 1" dat] assms
      by (simp add: pvalueAtFdrThreshold_def)
  qed
  from first later none show ?thesis by blast
qed

text \<open>
  The three cases of C5 on the first sample dataset: its p-values in ascending order are 1/64,
  1/32 and 1/16, and the raw ratios of the three ranks are 3/64, 3/64 and 1/16, all exact.
\<close>

lemma example_sorted_pvals: "sorted_pvals example_data = [1/64, 1/32, 1/16]"
  by (simp add: sorted_pvals_def example_data_def)

lemma example_length: "length example_data = 3"
  by (simp add: example_data_def)

lemma example_raw_ratio:
  "raw_ratio example_data 0 = Num (3/64)"
  "raw_ratio example_data 1 = Num (3/64)"
  "raw_ratio example_data 2 = Num (1/16)"
proof -
  have nth: "[1/64, 1/32, 1/16 :: real] ! 0 = 1 / 64" "[1/64, 1/32, 1/16 :: real] ! 1 = 1 / 32"
    "[1/64, 1/32, 1/16 :: real] ! 2 = 1 / 16"
    by simp_all
  show "raw_ratio example_data 0 = Num (3/64)"
    unfolding raw_ratio_def example_sorted_pvals example_length nth by (rule ratio_64_3_0)
  show "raw_ratio example_data 1 = Num (3/64)"
    unfolding raw_ratio_def example_sorted_pvals example_length nth by (rule ratio_32_3_1)
  show "raw_ratio example_data 2 = Num (1/16)"
    unfolding raw_ratio_def example_sorted_pvals example_length nth by (rule ratio_16_3_2)
qed

theorem pvalueAtFdrThreshold_scan_witness:
  "example_data \<noteq> [] \<and> length example_data = 3
   \<and> js_greater (raw_ratio example_data 0) (1/32)
   \<and> pvalueAtFdrThreshold example_data (1/32) = Inr (1/64)
   \<and> \<not> js_greater (raw_ratio example_data 0) (7/128)
   \<and> \<not> js_greater (raw_ratio example_data 1) (7/128)
   \<and> js_greater (raw_ratio example_data 2) (7/128)
   \<and> pvalueAtFdrThreshold example_data (7/128) = Inr (1/32)
   \<and> \<not> js_greater (raw_ratio example_data 0) (1/16)
   \<and> \<not> js_greater (raw_ratio example_data 1) (1/16)
   \<and> \<not> js_greater (raw_ratio example_data 2) (1/16)
   \<and> pvalueAtFdrThreshold example_data (1/16) = Inr (1/16)"
proof -
  have ne: "example_data \<noteq> []" by (simp add: example_data_def)
  note len = example_length
  note r = example_raw_ratio
  have mn: "Min (pval ` set example_data) = 1/64" by (simp add: example_data_def)
  have mx: "Max (pval ` set example_data) = 1/16" by (simp add: example_data_def)
  have h1: "js_greater (raw_ratio example_data 0) (1/32)" unfolding r js_greater_def by simp
  have h2: "js_greater (raw_ratio example_data 2) (7/128)" unfolding r js_greater_def by simp
  have n2: "\<not> js_greater (raw_ratio example_data 0) (7/128)
            \<and> \<not> js_greater (raw_ratio example_data 1) (7/128)"
    unfolding r js_greater_def by simp
  have n3: "\<not> js_greater (raw_ratio example_data 0) (1/16)
            \<and> \<not> js_greater (raw_ratio example_data 1) (1/16)
            \<and> \<not> js_greater (raw_ratio example_data 2) (1/16)"
    unfolding r js_greater_def by simp
  have h3: "\<forall>j<2. \<not> js_greater (raw_ratio example_data j) (7/128)"
  proof (intro allI impI)
    fix j :: nat assume "j < 2"
    then have "j = 0 \<or> j = 1" by auto
    then show "\<not> js_greater (raw_ratio example_data j) (7/128)" using n2 by auto
  qed
  have h4: "\<forall>k<length example_data. \<not> js_greater (raw_ratio example_data k) (1/16)"
  proof (intro allI impI)
    fix k :: nat assume "k < length example_data"
    then have "k = 0 \<or> k = 1 \<or> k = 2" using len by auto
    then show "\<not> js_greater (raw_ratio example_data k) (1/16)" using n3 by auto
  qed
  have c1: "pvalueAtFdrThreshold example_data (1/32) = Inr (1/64)"
    using pvalueAtFdrThreshold_scan [OF ne, of "1/32"] h1 mn by simp
  have c2: "pvalueAtFdrThreshold example_data (7/128) = Inr (1/32)"
    using pvalueAtFdrThreshold_scan [OF ne, of "7/128"] h2 h3 len example_sorted_pvals
    by (auto simp add: numeral_2_eq_2)
  have c3: "pvalueAtFdrThreshold example_data (1/16) = Inr (1/16)"
    using pvalueAtFdrThreshold_scan [OF ne, of "1/16"] h4 mx by simp
  from ne len h1 h2 n2 n3 c1 c2 c3 show ?thesis by blast
qed

text \<open>On a non-empty dataset the scan returns a p-value: the TypeError needs an empty array.\<close>

lemma cutoff_scan_returns:
  "srt \<noteq> [] \<Longrightarrow> \<exists>c. cutoff_scan srt thr k = Inr c"
proof (induction srt thr k rule: cutoff_scan.induct)
  case (1 srt thr k)
  show ?case
  proof (cases "k < length srt")
    case False
    then show ?thesis using "1.prems" by (subst cutoff_scan.simps) simp
  next
    case True
    show ?thesis
    proof (cases "js_greater (js_ratio (pval (srt ! k)) (length srt) k) thr")
      case exceeds: True
      then show ?thesis using True by (subst cutoff_scan.simps) simp
    next
      case False
      with True "1.IH" "1.prems" have "\<exists>c. cutoff_scan srt thr (k + 1) = Inr c" by simp
      then show ?thesis using True False by (subst cutoff_scan.simps) simp
    qed
  qed
qed

lemma pvalueAtFdrThreshold_nonempty:
  "dat \<noteq> [] \<Longrightarrow> \<exists>c. pvalueAtFdrThreshold dat thr = Inr c"
  unfolding pvalueAtFdrThreshold_def
  by (rule cutoff_scan_returns) (metis length_0_conv length_sort)

text \<open>
  Where the rounding decides: on the decimal p-values 0.01, 0.02 and 0.05 with the threshold
  0.05 the ratio of the last rank, \<open>(0.05 \<sqdot> 3) / 3\<close>, is the double next above 0.05. It
  exceeds the threshold, and the lookup returns 0.02.
\<close>

lemma pvalueAtFdrThreshold_decimals:
  "pvalueAtFdrThreshold decimal_data (dbl 0.05) = Inr (dbl 0.02)"
proof -
  let ?srt = "sort_key pval decimal_data"
  have p: "map pval ?srt
             = [5764607523034235 / 2 ^ 59, 5764607523034235 / 2 ^ 58, 3602879701896397 / 2 ^ 56]"
    unfolding decimal_data_def dbl_0_01 dbl_0_02 dbl_0_03 dbl_0_05 by simp
  have len: "length ?srt = 3" by (simp add: decimal_data_def)
  have p0: "pval (?srt ! 0) = (5764607523034235 / 2 ^ 59)"
    using arg_cong [OF p, of "\<lambda>xs. xs ! 0"] len by simp
  have p1: "pval (?srt ! 1) = (5764607523034235 / 2 ^ 58)"
    using arg_cong [OF p, of "\<lambda>xs. xs ! 1"] len by simp
  have p2: "pval (?srt ! 2) = (3602879701896397 / 2 ^ 56)"
    using arg_cong [OF p, of "\<lambda>xs. xs ! 2"] len by simp
  have r0: "\<not> js_greater (js_ratio (pval (?srt ! 0)) (length ?srt) 0) (dbl 0.05)"
    unfolding p0 len ratio_dec1_3_0 dbl_0_05 js_greater_def by simp
  have r1: "\<not> js_greater (js_ratio (pval (?srt ! 1)) (length ?srt) 1) (dbl 0.05)"
    unfolding p1 len ratio_dec2_3_1 dbl_0_05 js_greater_def by simp
  have r2: "js_greater (js_ratio (pval (?srt ! 2)) (length ?srt) 2) (dbl 0.05)"
    unfolding p2 len ratio_dec5_3_2 dbl_0_05 js_greater_def by simp
  have before: "\<forall>j. 0 \<le> j \<and> j < 2 \<longrightarrow>
                  \<not> js_greater (js_ratio (pval (?srt ! j)) (length ?srt) j) (dbl 0.05)"
  proof (intro allI impI)
    fix j :: nat assume "0 \<le> j \<and> j < 2"
    then have "j = 0 \<or> j = 1" by auto
    then show "\<not> js_greater (js_ratio (pval (?srt ! j)) (length ?srt) j) (dbl 0.05)"
      using r0 r1 by auto
  qed
  have scan: "cutoff_scan ?srt (dbl 0.05) 0 = Inr (pval (?srt ! 1))"
    using cutoff_scan_first_exceeding [of 0 2 ?srt "dbl 0.05"] len r2 before by simp
  have "pval (?srt ! 1) = dbl 0.02" unfolding p1 dbl_0_02 ..
  with scan show ?thesis unfolding pvalueAtFdrThreshold_def by simp
qed

section \<open>Properties of the state transitions\<close>

lemma redraw_keeps:
  "fcThreshold (redraw st) = fcThreshold st"
  "fdrThreshold (redraw st) = fdrThreshold st"
  "pinned (redraw st) = pinned st"
  "selected (redraw st) = selected st"
  "searchHighlightId (redraw st) = searchHighlightId st"
  "zoomDomain (redraw st) = zoomDomain st"
  by (simp_all add: redraw_def split: sum.split)

lemma redraw_nonempty:
  assumes "data st \<noteq> []"
  shows "\<exists>c. pvalueAtFdrThreshold (data st) (fdrThreshold st) = Inr c
           \<and> redraw st = st\<lparr> pvalAtFdr := Some c,
                  data := map (\<lambda>d. d\<lparr> category := Some (getCategory d (fcThreshold st) (fdrThreshold st)) \<rparr>)
                              (data st) \<rparr>"
proof -
  from pvalueAtFdrThreshold_nonempty [OF assms]
  obtain c where "pvalueAtFdrThreshold (data st) (fdrThreshold st) = Inr c" by blast
  then show ?thesis using assms by (simp add: redraw_def)
qed

text \<open>
  C3, as amended. The threshold setters store the number they are given: \<^verbatim>\<open>updateFc\<close> makes
  it \<^verbatim>\<open>fcThreshold\<close> and \<^verbatim>\<open>updateFdr\<close> makes it \<^verbatim>\<open>fdrThreshold\<close>, whatever its range.
  They do not fail and they do not clamp.
\<close>

theorem update_thresholds_store:
  "fcThreshold (updateFc v st) = v \<and> fdrThreshold (updateFdr w st) = w"
  by (simp add: updateFc_def updateFdr_def redraw_keeps)

text \<open>
  C3 as stated fails: \<open>-1\<close> is stored as \<^verbatim>\<open>fcThreshold\<close> and 2 as \<^verbatim>\<open>fdrThreshold\<close>.
\<close>

theorem update_thresholds_no_clamp:
  "fcThreshold (updateFc (- 1) example_state) = - 1
   \<and> \<not> 0 \<le> fcThreshold (updateFc (- 1) example_state)
   \<and> fdrThreshold (updateFdr 2 example_state) = 2
   \<and> \<not> fdrThreshold (updateFdr 2 example_state) \<le> 1"
  by (simp add: updateFc_def updateFdr_def redraw_keeps)

text \<open>
  C8. With a non-empty selection a click on a point returns before it touches anything: the
  state after the click is the state before it, and so is the pinned set.
\<close>

theorem point_click_selected_noop:
  "selected st \<noteq> {||} \<Longrightarrow> point_click d st = st \<and> pinned (point_click d st) = pinned st"
  by (simp add: point_click_def fcard_0_eq)

theorem point_click_selected_noop_witness:
  "selected example_state \<noteq> {||}
   \<and> point_click (example_data ! 0) example_state = example_state
   \<and> pinned (point_click (example_data ! 0) example_state) = pinned example_state"
proof -
  have sel: "selected example_state \<noteq> {||}" by (simp add: example_state_def)
  from point_click_selected_noop [OF sel, of "example_data ! 0"] sel show ?thesis by blast
qed

subsection \<open>Search\<close>

lemma includes_str_empty: "includes_str s []"
  by (cases s) simp_all

lemma trim_blank: "(trim raw = []) = (\<forall>c\<in>set raw. isWhitespace c)"
proof
  assume "trim raw = []"
  then have all: "\<forall>c\<in>set (dropWhile isWhitespace raw). isWhitespace c"
    by (simp add: trim_def)
  have "dropWhile isWhitespace raw = []"
  proof (rule ccontr)
    assume ne: "dropWhile isWhitespace raw \<noteq> []"
    then have "\<not> isWhitespace (hd (dropWhile isWhitespace raw))" by (rule hd_dropWhile)
    moreover have "hd (dropWhile isWhitespace raw) \<in> set (dropWhile isWhitespace raw)"
      using ne by simp
    ultimately show False using all by blast
  qed
  then show "\<forall>c\<in>set raw. isWhitespace c" by simp
next
  assume "\<forall>c\<in>set raw. isWhitespace c"
  then show "trim raw = []" by (auto simp add: trim_def dest: set_dropWhileD)
qed

lemma asciiToLowerCase_Nil: "(asciiToLowerCase s = []) = (s = [])"
  by (simp add: asciiToLowerCase_def)

text \<open>
  C10. Let the case conversion turn only the empty string into the empty string, as the
  built-in one does. A query that is empty or all white space, by the white space of
  \<^verbatim>\<open>trim\<close>, clears \<^verbatim>\<open>searchHighlightId\<close> and leaves \<^verbatim>\<open>zoomDomain\<close> as it was, although
  the empty string occurs in every id. A query with other characters and no matching id
  clears both, and a zoom window that was set is cleared by no other query.
\<close>

theorem doSearch_blank_query:
  assumes lower: "\<forall>s. (toLowerCase s = []) = (s = [])"
  shows
  "((\<forall>c\<in>set raw. isWhitespace c) \<longrightarrow>
      searchHighlightId (doSearch toLowerCase raw st) = None
      \<and> zoomDomain (doSearch toLowerCase raw st) = zoomDomain st)
   \<and> (\<not> (\<forall>c\<in>set raw. isWhitespace c)
        \<and> (\<forall>d\<in>set (data st). \<not> includes_str (toLowerCase (id_str d)) (toLowerCase (trim raw))) \<longrightarrow>
      searchHighlightId (doSearch toLowerCase raw st) = None
      \<and> zoomDomain (doSearch toLowerCase raw st) = None)
   \<and> (zoomDomain st \<noteq> None \<and> zoomDomain (doSearch toLowerCase raw st) = None \<longrightarrow>
      \<not> (\<forall>c\<in>set raw. isWhitespace c)
        \<and> (\<forall>d\<in>set (data st). \<not> includes_str (toLowerCase (id_str d)) (toLowerCase (trim raw))))
   \<and> (\<forall>d\<in>set (data st). includes_str (toLowerCase (id_str d)) [])"
proof -
  let ?q = "toLowerCase (trim raw)"
  have blank: "(?q = []) = (\<forall>c\<in>set raw. isWhitespace c)"
    using lower by (simp add: trim_blank)
  have nomatch: "(find (\<lambda>d. includes_str (toLowerCase (id_str d)) ?q) (data st) = None)
                 = (\<forall>d\<in>set (data st). \<not> includes_str (toLowerCase (id_str d)) ?q)"
    by (auto simp add: find_None_iff)
  have a: "searchHighlightId (doSearch toLowerCase raw st) = None
           \<and> zoomDomain (doSearch toLowerCase raw st) = zoomDomain st"
    if "\<forall>c\<in>set raw. isWhitespace c"
  proof -
    from that blank have "?q = []" by blast
    then show ?thesis by (simp add: doSearch_def redraw_keeps)
  qed
  have b: "searchHighlightId (doSearch toLowerCase raw st) = None
           \<and> zoomDomain (doSearch toLowerCase raw st) = None"
    if "\<not> (\<forall>c\<in>set raw. isWhitespace c)"
      and "\<forall>d\<in>set (data st). \<not> includes_str (toLowerCase (id_str d)) ?q"
  proof -
    from that(1) blank have "?q \<noteq> []" by blast
    moreover from that(2) nomatch
    have "find (\<lambda>d. includes_str (toLowerCase (id_str d)) ?q) (data st) = None" by blast
    ultimately show ?thesis by (simp add: doSearch_def redraw_keeps)
  qed
  have c: "\<not> (\<forall>c\<in>set raw. isWhitespace c)
           \<and> (\<forall>d\<in>set (data st). \<not> includes_str (toLowerCase (id_str d)) ?q)"
    if "zoomDomain st \<noteq> None" and "zoomDomain (doSearch toLowerCase raw st) = None"
  proof (cases "?q = []")
    case True
    then have "zoomDomain (doSearch toLowerCase raw st) = zoomDomain st"
      by (simp add: doSearch_def redraw_keeps)
    with that show ?thesis by simp
  next
    case False
    show ?thesis
    proof (cases "find (\<lambda>d. includes_str (toLowerCase (id_str d)) ?q) (data st)")
      case None
      with False blank nomatch show ?thesis by blast
    next
      case (Some found)
      with False have "zoomDomain (doSearch toLowerCase raw st) \<noteq> None"
        by (simp add: doSearch_def redraw_keeps)
      with that show ?thesis by simp
    qed
  qed
  have d: "\<forall>d\<in>set (data st). includes_str (toLowerCase (id_str d)) []"
    by (simp add: includes_str_empty)
  from a b c d show ?thesis by blast
qed

text \<open>
  The first query of the witness is a space, a no-break space (U+00A0) and an ideographic
  space (U+3000); the second is \<open>XyZ\<close> between two spaces.
\<close>

theorem doSearch_blank_query_witness:
  "(\<forall>s. (asciiToLowerCase s = []) = (s = []))
   \<and> list_all isWhitespace [0x20, 0xA0, 0x3000]
   \<and> searchHighlightId (doSearch asciiToLowerCase [0x20, 0xA0, 0x3000] example_state) = None
   \<and> zoomDomain (doSearch asciiToLowerCase [0x20, 0xA0, 0x3000] example_state)
       = zoomDomain example_state
   \<and> zoomDomain example_state \<noteq> None
   \<and> \<not> list_all isWhitespace (ascii '' XyZ '')
   \<and> find (\<lambda>d. includes_str (asciiToLowerCase (id_str d))
                  (asciiToLowerCase (trim (ascii '' XyZ ''))))
         (data example_state) = None
   \<and> searchHighlightId (doSearch asciiToLowerCase (ascii '' XyZ '') example_state) = None
   \<and> zoomDomain (doSearch asciiToLowerCase (ascii '' XyZ '') example_state) = None"
proof -
  have lower: "\<forall>s. (asciiToLowerCase s = []) = (s = [])"
    by (simp add: asciiToLowerCase_Nil)
  have blank: "list_all isWhitespace [0x20, 0xA0, 0x3000]" by code_simp
  have zoomed: "zoomDomain example_state \<noteq> None" by (simp add: example_state_def)
  have other: "\<not> list_all isWhitespace (ascii '' XyZ '')" by code_simp
  have nomatch: "find (\<lambda>d. includes_str (asciiToLowerCase (id_str d))
                             (asciiToLowerCase (trim (ascii '' XyZ ''))))
                   (data example_state) = None"
    by code_simp
  have hyp1: "\<forall>c\<in>set [0x20, 0xA0, 0x3000]. isWhitespace c"
    using blank unfolding list_all_iff .
  have hyp2: "\<not> (\<forall>c\<in>set (ascii '' XyZ ''). isWhitespace c)"
    using other unfolding list_all_iff .
  have hyp3: "\<forall>d\<in>set (data example_state).
                \<not> includes_str (asciiToLowerCase (id_str d))
                     (asciiToLowerCase (trim (ascii '' XyZ '')))"
    using nomatch by (simp only: find_None_iff) blast
  from doSearch_blank_query [OF lower, of "[0x20, 0xA0, 0x3000]" example_state] hyp1
  have a: "searchHighlightId (doSearch asciiToLowerCase [0x20, 0xA0, 0x3000] example_state) = None
           \<and> zoomDomain (doSearch asciiToLowerCase [0x20, 0xA0, 0x3000] example_state)
               = zoomDomain example_state"
    by blast
  from doSearch_blank_query [OF lower, of "ascii '' XyZ ''" example_state] hyp2 hyp3
  have b: "searchHighlightId (doSearch asciiToLowerCase (ascii '' XyZ '') example_state) = None
           \<and> zoomDomain (doSearch asciiToLowerCase (ascii '' XyZ '') example_state) = None"
    by blast
  from lower blank zoomed other nomatch a b show ?thesis by blast
qed

end
